theory Spec2Isabelle
  imports Complex_Main "HOL-Library.Sublist"
begin

section \<open>Cells, frames and errors\<close>

text \<open>
  The dashboard of \<^verbatim>\<open>index.py\<close> holds its data in a pandas DataFrame. A cell of a frame
  is a text, a number or the missing marker (NaN). Text is a byte string in UTF-8, as the
  source file spells its column labels; numbers are idealised as rationals (rounding to a
  double, overflow and the infinities are not part of this development).
\<close>

datatype cell = Str string | Num rat | Missing

type_synonym row = "cell list"
type_synonym series = "cell list"

text \<open>
  A frame is its column labels, in order, and its rows, in order; the cells of a row are
  aligned with the labels.
\<close>

record frame =
  columns :: "string list"
  rows :: "row list"

definition wf_frame :: "frame \<Rightarrow> bool" where
  "wf_frame df \<longleftrightarrow>
     distinct (columns df) \<and> list_all (\<lambda>r. length r = length (columns df)) (rows df)"

text \<open>The exceptions that the frame operations used by \<^verbatim>\<open>clean_data\<close> can raise.\<close>

datatype error = KeyError string | AttributeError

fun is_str :: "cell \<Rightarrow> bool" where
  "is_str (Str s) = True"
| "is_str (Num x) = False"
| "is_str Missing = False"



section \<open>Text: \<^verbatim>\<open>str.strip\<close> and \<^verbatim>\<open>str.upper\<close>\<close>

text \<open>
  Python's \<^verbatim>\<open>str.isspace\<close> on the ASCII range: tab, line feed, vertical tab, form feed,
  carriage return, the four separators 0x1C..0x1F and the blank. The case table is the
  ASCII one; bytes above 0x7F (the UTF-8 code units of a non-ASCII character) are kept as
  they are by both operations, so the case mapping and the blanks of Unicode beyond ASCII
  are not part of this development.
\<close>

definition isspace :: "char \<Rightarrow> bool" where
  "isspace c \<longleftrightarrow> (of_char c :: nat) \<in> {9, 10, 11, 12, 13, 28, 29, 30, 31, 32}"

definition strip :: "string \<Rightarrow> string" where
  "strip s = rev (dropWhile isspace (rev (dropWhile isspace s)))"

definition upper_char :: "char \<Rightarrow> char" where
  "upper_char c =
     (if 97 \<le> (of_char c :: nat) \<and> (of_char c :: nat) \<le> 122
      then char_of ((of_char c :: nat) - 32) else c)"

definition upper :: "string \<Rightarrow> string" where
  "upper s = map upper_char s"


section \<open>Numbers: the literal grammar of \<^verbatim>\<open>pd.to_numeric\<close>\<close>

text \<open>
  On a text cell \<^verbatim>\<open>pd.to_numeric\<close> runs the float parser of the pandas tokenizer
  (\<^verbatim>\<open>to_double\<close>, with decimal point \<^verbatim>\<open>.\<close> and exponent mark \<^verbatim>\<open>E\<close>): blanks, an optional
  sign, digits, an optional fraction, at least one digit in all, an optional exponent
  (given up when no digit follows the mark), blanks, and then the end of the text.
\<close>

definition isspace_ascii :: "char \<Rightarrow> bool" where
  "isspace_ascii c \<longleftrightarrow> (of_char c :: nat) \<in> {9, 10, 11, 12, 13, 32}"

definition isdigit_ascii :: "char \<Rightarrow> bool" where
  "isdigit_ascii c \<longleftrightarrow> 48 \<le> (of_char c :: nat) \<and> (of_char c :: nat) \<le> 57"

definition digits_val :: "string \<Rightarrow> nat" where
  "digits_val ds = foldl (\<lambda>n c. n * 10 + ((of_char c :: nat) - 48)) 0 ds"

definition skip_sign :: "string \<Rightarrow> bool \<times> string" where
  "skip_sign p =
     (case p of
        [] \<Rightarrow> (False, [])
      | c # q \<Rightarrow>
          if c = CHR ''-'' then (True, q)
          else if c = CHR ''+'' then (False, q)
          else (False, p))"

definition decimal_part :: "string \<Rightarrow> string \<times> string" where
  "decimal_part p =
     (case p of
        [] \<Rightarrow> ([], [])
      | c # q \<Rightarrow>
          if c = CHR ''.'' then (takeWhile isdigit_ascii q, dropWhile isdigit_ascii q)
          else ([], p))"

definition exponent_part :: "string \<Rightarrow> int \<times> string" where
  "exponent_part p =
     (case p of
        [] \<Rightarrow> (0, [])
      | c # q \<Rightarrow>
          if c = CHR ''e'' \<or> c = CHR ''E'' then
            (let (negative, q') = skip_sign q;
                 ds = takeWhile isdigit_ascii q'
             in if ds = [] then (0, p)
                else (if negative then - int (digits_val ds) else int (digits_val ds),
                      dropWhile isdigit_ascii q'))
          else (0, p))"

definition scale10 :: "rat \<Rightarrow> int \<Rightarrow> rat" where
  "scale10 x e = (if 0 \<le> e then x * 10 ^ nat e else x / 10 ^ nat (- e))"

definition to_double :: "string \<Rightarrow> rat option" where
  "to_double item =
     (let p0 = dropWhile isspace_ascii item;
          (negative, p1) = skip_sign p0;
          int_digits = takeWhile isdigit_ascii p1;
          p2 = dropWhile isdigit_ascii p1;
          (frac_digits, p3) = decimal_part p2
      in if int_digits @ frac_digits = [] then None
         else
           (let m = of_nat (digits_val (int_digits @ frac_digits));
                number = (if negative then - m else m);
                (exponent, p4) = exponent_part p3;
                p5 = dropWhile isspace_ascii p4
            in if p5 = [] then Some (scale10 number (exponent - int (length frac_digits)))
               else None))"


section \<open>The frame operations that \<^verbatim>\<open>clean_data\<close> calls\<close>

subsection \<open>\<^verbatim>\<open>DataFrame.drop_duplicates\<close>\<close>

text \<open>
  With its default arguments the method compares whole rows, keeps the first occurrence of
  each and returns a new frame with the survivors in their order. Two missing markers
  compare equal.
\<close>

fun first_seen :: "row list \<Rightarrow> row list \<Rightarrow> row list" where
  "first_seen seen [] = []"
| "first_seen seen (r # rs) =
     (if r \<in> set seen then first_seen seen rs else r # first_seen (r # seen) rs)"

definition drop_duplicates :: "frame \<Rightarrow> frame" where
  "drop_duplicates df = df\<lparr>rows := first_seen [] (rows df)\<rparr>"

subsection \<open>\<^verbatim>\<open>df[col]\<close> and \<^verbatim>\<open>df[col] = s\<close>\<close>

definition row_get :: "string list \<Rightarrow> string \<Rightarrow> row \<Rightarrow> cell" where
  "row_get cols col r = (case map_of (zip cols r) col of Some v \<Rightarrow> v | None \<Rightarrow> Missing)"

definition row_set :: "string list \<Rightarrow> string \<Rightarrow> row \<Rightarrow> cell \<Rightarrow> row" where
  "row_set cols col r v = map (\<lambda>(c, x). if c = col then v else x) (zip cols r)"

definition getitem :: "frame \<Rightarrow> string \<Rightarrow> error + series" where
  "getitem df col =
     (if col \<in> set (columns df) then Inr (map (row_get (columns df) col) (rows df))
      else Inl (KeyError col))"

text \<open>Assigning to a label that the frame does not have appends a column.\<close>

definition setitem :: "frame \<Rightarrow> string \<Rightarrow> series \<Rightarrow> frame" where
  "setitem df col s =
     (if col \<in> set (columns df)
      then df\<lparr>rows := map (\<lambda>(r, v). row_set (columns df) col r v) (zip (rows df) s)\<rparr>
      else df\<lparr>columns := columns df @ [col],
              rows := map (\<lambda>(r, v). r @ [v]) (zip (rows df) s)\<rparr>)"

subsection \<open>\<^verbatim>\<open>pd.to_numeric(s, errors='coerce')\<close>\<close>

fun coerce_cell :: "cell \<Rightarrow> cell" where
  "coerce_cell (Str s) = (case to_double s of Some x \<Rightarrow> Num x | None \<Rightarrow> Missing)"
| "coerce_cell (Num x) = Num x"
| "coerce_cell Missing = Missing"

definition to_numeric :: "series \<Rightarrow> series" where
  "to_numeric s = map coerce_cell s"

subsection \<open>The \<^verbatim>\<open>.str\<close> accessor\<close>

text \<open>
  pandas fixes the type of a column when it builds it: a column read from a file is of
  object type when some cell of it is text, or when the file has no data row, and of a
  numeric type otherwise. The accessor checks the column before any string method runs and
  raises \<^verbatim>\<open>AttributeError\<close> (\<^verbatim>\<open>Can only use .str accessor with string values!\<close>) on a
  column of numeric type. On a column that passes, a string method maps the text cells and
  yields the missing marker for every other cell.
\<close>

definition str_accessor :: "series \<Rightarrow> error + series" where
  "str_accessor s = (if s = [] \<or> list_ex is_str s then Inr s else Inl AttributeError)"

fun str_map :: "(string \<Rightarrow> string) \<Rightarrow> cell \<Rightarrow> cell" where
  "str_map f (Str s) = Str (f s)"
| "str_map f (Num x) = Missing"
| "str_map f Missing = Missing"

definition str_strip :: "series \<Rightarrow> error + series" where
  "str_strip s = (case str_accessor s of Inl e \<Rightarrow> Inl e | Inr s' \<Rightarrow> Inr (map (str_map strip) s'))"

definition str_upper :: "series \<Rightarrow> error + series" where
  "str_upper s = (case str_accessor s of Inl e \<Rightarrow> Inl e | Inr s' \<Rightarrow> Inr (map (str_map upper) s'))"


section \<open>\<^verbatim>\<open>clean_data\<close>\<close>

text \<open>
  The designated labels. Four of them carry an accented capital, which the source file
  spells in UTF-8 with two bytes: N with tilde is C3 91, O with acute is C3 93, I with
  acute is C3 8D and E with acute is C3 89.
\<close>

definition label_anyo :: string where
  "label_anyo = [CHR ''A'', CHR 0xC3, CHR 0x91, CHR ''O'']"

definition label_puntuacion :: string where
  "label_puntuacion = ''PUNTUACI'' @ [CHR 0xC3, CHR 0x93] @ ''N''"

definition label_titulo :: string where
  "label_titulo = [CHR ''T'', CHR 0xC3, CHR 0x8D] @ ''TULO''"

definition label_genero :: string where
  "label_genero = [CHR ''G'', CHR 0xC3, CHR 0x89] @ ''NERO''"

definition numeric_cols :: "string list" where
  "numeric_cols = [label_anyo, ''PRECIO'', ''MEDIA'', label_puntuacion]"

definition text_cols :: "string list" where
  "text_cols = [label_titulo, label_genero, ''PLATAFORMA'', ''DESARROLLADOR'']"

text \<open>A \<^verbatim>\<open>for\<close> loop whose body may raise: the first exception ends the loop.\<close>

fun for_each :: "('a \<Rightarrow> 's \<Rightarrow> error + 's) \<Rightarrow> 'a list \<Rightarrow> 's \<Rightarrow> error + 's" where
  "for_each body [] s = Inr s"
| "for_each body (x # xs) s =
     (case body x s of Inl e \<Rightarrow> Inl e | Inr s' \<Rightarrow> for_each body xs s')"

text \<open>
  The body of the first loop:
  \<^verbatim>\<open>if col in df.columns: df[col] = pd.to_numeric(df[col], errors='coerce')\<close>.
\<close>

definition coerce_column :: "string \<Rightarrow> frame \<Rightarrow> error + frame" where
  "coerce_column col df =
     (if col \<in> set (columns df) then
        (case getitem df col of
           Inl e \<Rightarrow> Inl e
         | Inr s \<Rightarrow> Inr (setitem df col (to_numeric s)))
      else Inr df)"

text \<open>
  The body of the second loop:
  \<^verbatim>\<open>if col in df.columns: df[col] = df[col].str.strip().str.upper()\<close>.
\<close>

definition normalize_column :: "string \<Rightarrow> frame \<Rightarrow> error + frame" where
  "normalize_column col df =
     (if col \<in> set (columns df) then
        (case getitem df col of
           Inl e \<Rightarrow> Inl e
         | Inr s \<Rightarrow>
             (case str_strip s of
                Inl e \<Rightarrow> Inl e
              | Inr s1 \<Rightarrow>
                  (case str_upper s1 of
                     Inl e \<Rightarrow> Inl e
                   | Inr s2 \<Rightarrow> Inr (setitem df col s2))))
      else Inr df)"

definition clean_data :: "frame \<Rightarrow> error + frame" where
  "clean_data df0 =
     (let df = drop_duplicates df0 in
      case for_each coerce_column numeric_cols df of
        Inl e \<Rightarrow> Inl e
      | Inr df1 \<Rightarrow> for_each normalize_column text_cols df1)"


section \<open>\<^verbatim>\<open>clean_data\<close> on the heap\<close>

text \<open>
  Python passes a frame by reference, and \<^verbatim>\<open>df[col] = s\<close> writes into the object that \<open>df\<close>
  refers to. To follow which object is written, the frames live in a heap, a list indexed
  by address: \<^verbatim>\<open>df.drop_duplicates()\<close> allocates a new frame and returns its address, an
  assignment to a column updates the frame at the address, and \<^verbatim>\<open>df = ...\<close> rebinds the
  local name only. A statement returns the exception it raised, if any, and the heap it
  leaves.
\<close>

type_synonym ref = nat
type_synonym heap = "frame list"

definition drop_duplicates_h :: "heap \<Rightarrow> ref \<Rightarrow> ref \<times> heap" where
  "drop_duplicates_h h a = (length h, h @ [drop_duplicates (h ! a)])"

definition setitem_h :: "heap \<Rightarrow> ref \<Rightarrow> string \<Rightarrow> series \<Rightarrow> heap" where
  "setitem_h h a col s = h[a := setitem (h ! a) col s]"

definition coerce_column_h :: "ref \<Rightarrow> string \<Rightarrow> heap \<Rightarrow> error option \<times> heap" where
  "coerce_column_h df col h =
     (if col \<in> set (columns (h ! df)) then
        (case getitem (h ! df) col of
           Inl e \<Rightarrow> (Some e, h)
         | Inr s \<Rightarrow> (None, setitem_h h df col (to_numeric s)))
      else (None, h))"

definition normalize_column_h :: "ref \<Rightarrow> string \<Rightarrow> heap \<Rightarrow> error option \<times> heap" where
  "normalize_column_h df col h =
     (if col \<in> set (columns (h ! df)) then
        (case getitem (h ! df) col of
           Inl e \<Rightarrow> (Some e, h)
         | Inr s \<Rightarrow>
             (case str_strip s of
                Inl e \<Rightarrow> (Some e, h)
              | Inr s1 \<Rightarrow>
                  (case str_upper s1 of
                     Inl e \<Rightarrow> (Some e, h)
                   | Inr s2 \<Rightarrow> (None, setitem_h h df col s2))))
      else (None, h))"

fun for_each_h :: "('a \<Rightarrow> heap \<Rightarrow> error option \<times> heap) \<Rightarrow> 'a list \<Rightarrow> heap \<Rightarrow> error option \<times> heap" where
  "for_each_h body [] h = (None, h)"
| "for_each_h body (x # xs) h =
     (case body x h of
        (Some e, h') \<Rightarrow> (Some e, h')
      | (None, h') \<Rightarrow> for_each_h body xs h')"

definition clean_data_h :: "heap \<Rightarrow> ref \<Rightarrow> (error + ref) \<times> heap" where
  "clean_data_h h0 df0 =
     (let (df, h1) = drop_duplicates_h h0 df0 in
      case for_each_h (coerce_column_h df) numeric_cols h1 of
        (Some e, h2) \<Rightarrow> (Inl e, h2)
      | (None, h2) \<Rightarrow>
          (case for_each_h (normalize_column_h df) text_cols h2 of
             (Some e, h3) \<Rightarrow> (Inl e, h3)
           | (None, h3) \<Rightarrow> (Inr df, h3)))"

text \<open>Two heaps that agree everywhere but at one address.\<close>

definition only_at :: "ref \<Rightarrow> heap \<Rightarrow> heap \<Rightarrow> bool" where
  "only_at d h h' \<longleftrightarrow> length h' = length h \<and> (\<forall>i < length h. i \<noteq> d \<longrightarrow> h' ! i = h ! i)"

text \<open>
  A statement on the heap runs a function on frames at address \<open>d\<close>: it touches no other
  address, raises what the function raises, and leaves the function's result at \<open>d\<close>.
\<close>

definition runs :: "ref \<Rightarrow> (frame \<Rightarrow> error + frame) \<Rightarrow> (heap \<Rightarrow> error option \<times> heap) \<Rightarrow> bool" where
  "runs d f g \<longleftrightarrow>
     (\<forall>h. d < length h \<longrightarrow>
        only_at d h (snd (g h)) \<and>
        (case fst (g h) of
           Some e \<Rightarrow> f (h ! d) = Inl e
         | None \<Rightarrow> f (h ! d) = Inr (snd (g h) ! d)))"


section \<open>Loading: encoding and delimiter detection\<close>

text \<open>
  The loader works on the raw bytes of a file and on Python strings, which are sequences
  of code points. The library routines it calls are parameters of the model:
  \<^verbatim>\<open>chardet.detect\<close> (the encoding name, or \<^verbatim>\<open>None\<close>), the codec of a named encoding,
  \<^verbatim>\<open>pd.read_csv\<close> on a decoded text with a delimiter, the bytes of the file at a path, and
  the encoding that \<^verbatim>\<open>open\<close> takes when it is given none. The Latin-1 codec is fixed: it
  maps every byte to the code point of the same number and cannot fail.
\<close>

type_synonym bytes = "char list"
type_synonym pystr = "nat list"

datatype py_exn = UnicodeDecodeError string | TypeError string | OtherError string

fun str_of_exn :: "py_exn \<Rightarrow> string" where
  "str_of_exn (UnicodeDecodeError m) = m"
| "str_of_exn (TypeError m) = m"
| "str_of_exn (OtherError m) = m"

record env =
  chardet_detect :: "bytes \<Rightarrow> string option"
  codec_decode :: "string \<Rightarrow> bytes \<Rightarrow> py_exn + pystr"
  read_csv :: "pystr \<Rightarrow> nat \<Rightarrow> py_exn + frame"
  file_bytes :: "string \<Rightarrow> bytes option"
  locale_encoding :: string

text \<open>What the loader does to the outside, in order: decoding attempts, calls of the
  parser with the text and the delimiter it was given, and messages shown to the user.\<close>

datatype event =
    Decode "string option"
  | Decode_latin1
  | Read_csv pystr nat
  | St_error string

definition latin1_decode :: "bytes \<Rightarrow> pystr" where
  "latin1_decode raw = map of_char raw"

definition bytes_decode :: "env \<Rightarrow> string option \<Rightarrow> bytes \<Rightarrow> py_exn + pystr" where
  "bytes_decode env encoding raw =
     (case encoding of
        None \<Rightarrow> Inl (TypeError ''decode() argument encoding must be str, not None'')
      | Some name \<Rightarrow> codec_decode env name raw)"

text \<open>
  \<^verbatim>\<open>StringIO.readline\<close> ends a line at the line feed; a file opened in text mode also ends
  it at a carriage return, and hands out either as a line feed.
\<close>

fun readline :: "pystr \<Rightarrow> pystr" where
  "readline [] = []"
| "readline (c # cs) = (if c = 10 then [10] else c # readline cs)"


text \<open>
  \<^verbatim>\<open>delimitador = "," if primera_linea.count(",") > primera_linea.count(";") else ";"\<close>
\<close>

definition comma :: nat where
  "comma = of_char CHR '',''"

definition semicolon :: nat where
  "semicolon = of_char CHR '';''"

definition delimitador_de :: "pystr \<Rightarrow> nat" where
  "delimitador_de primera_linea =
     (if count_list primera_linea comma > count_list primera_linea semicolon
      then comma else semicolon)"

text \<open>
  The lines that both branches of \<^verbatim>\<open>load_uploaded_file\<close> share: wrap the text in a
  \<^verbatim>\<open>StringIO\<close>, read the first line, choose the delimiter, rewind and parse.
\<close>

definition read_text :: "env \<Rightarrow> pystr \<Rightarrow> (py_exn + frame) \<times> event list" where
  "read_text env string_data =
     (let primera_linea = readline string_data;
          delimitador = delimitador_de primera_linea
      in (read_csv env string_data delimitador, [Read_csv string_data delimitador]))"

text \<open>
  The handler of \<^verbatim>\<open>UnicodeDecodeError\<close>: decode as Latin-1 and parse; any exception in there
  is shown with \<^verbatim>\<open>st.error\<close> and the function returns \<^verbatim>\<open>None\<close>.
\<close>

definition fallback_latin1 :: "env \<Rightarrow> bytes \<Rightarrow> (py_exn + frame option) \<times> event list" where
  "fallback_latin1 env raw_data =
     (case read_text env (latin1_decode raw_data) of
        (Inr df, evs) \<Rightarrow> (Inr (Some df), Decode_latin1 # evs)
      | (Inl e, evs) \<Rightarrow>
          (Inr None,
           Decode_latin1 # evs @ [St_error (''No se pudo decodificar el archivo: '' @ str_of_exn e)]))"

text \<open>The body of the outer \<^verbatim>\<open>try\<close>: decode with the detected encoding and parse.\<close>

definition first_attempt :: "env \<Rightarrow> bytes \<Rightarrow> (py_exn + frame) \<times> event list" where
  "first_attempt env raw_data =
     (let encoding = chardet_detect env raw_data in
      case bytes_decode env encoding raw_data of
        Inl e \<Rightarrow> (Inl e, [Decode encoding])
      | Inr string_data \<Rightarrow>
          (case read_text env string_data of (r, evs) \<Rightarrow> (r, Decode encoding # evs)))"

text \<open>
  Only \<^verbatim>\<open>UnicodeDecodeError\<close> is caught by the outer \<^verbatim>\<open>try\<close>; any other exception leaves
  the function.
\<close>

definition load_uploaded_file :: "env \<Rightarrow> bytes \<Rightarrow> (py_exn + frame option) \<times> event list" where
  "load_uploaded_file env raw_data =
     (case first_attempt env raw_data of
        (Inr df, evs) \<Rightarrow> (Inr (Some df), evs)
      | (Inl (UnicodeDecodeError m), evs) \<Rightarrow>
          (case fallback_latin1 env raw_data of (r, evs') \<Rightarrow> (r, evs @ evs'))
      | (Inl (TypeError m), evs) \<Rightarrow> (Inl (TypeError m), evs)
      | (Inl (OtherError m), evs) \<Rightarrow> (Inl (OtherError m), evs))"


definition is_fallback :: "event \<Rightarrow> bool" where
  "is_fallback ev \<longleftrightarrow> ev = Decode_latin1"

fun is_decode :: "event \<Rightarrow> bool" where
  "is_decode (Decode enc) = True"
| "is_decode Decode_latin1 = True"
| "is_decode (Read_csv t d) = False"
| "is_decode (St_error m) = False"


section \<open>Notions used to state the properties of \<^verbatim>\<open>clean_data\<close>\<close>

text \<open>The cells of the frame under one label, top to bottom.\<close>

definition column :: "frame \<Rightarrow> string \<Rightarrow> series" where
  "column df col = map (row_get (columns df) col) (rows df)"

text \<open>A row whose cell under each label \<open>c\<close> has been sent through \<open>F c\<close>.\<close>

definition map_labelled :: "(string \<Rightarrow> cell \<Rightarrow> cell) \<Rightarrow> string list \<Rightarrow> row \<Rightarrow> row" where
  "map_labelled F cols r = map (\<lambda>(c, x). F c x) (zip cols r)"

definition apply_cols :: "(string \<Rightarrow> cell \<Rightarrow> cell) \<Rightarrow> frame \<Rightarrow> frame" where
  "apply_cols F df = df\<lparr>rows := map (map_labelled F (columns df)) (rows df)\<rparr>"

text \<open>What \<^verbatim>\<open>.str.strip().str.upper()\<close> makes of one cell of a column that has passed the
  accessor's check.\<close>

definition normalize_cell :: "cell \<Rightarrow> cell" where
  "normalize_cell x = str_map upper (str_map strip x)"

text \<open>What the two loops together make of one cell, by the label of its column.\<close>

definition clean_cell :: "string \<Rightarrow> cell \<Rightarrow> cell" where
  "clean_cell c x =
     (if c \<in> set numeric_cols then coerce_cell x
      else if c \<in> set text_cols then normalize_cell x
      else x)"

definition clean_row :: "string list \<Rightarrow> row \<Rightarrow> row" where
  "clean_row cols r = map_labelled clean_cell cols r"

text \<open>
  A label is ready for the \<^verbatim>\<open>.str\<close> accessor when the frame does not have it, or has no
  row, or has a text cell under it; a frame is ready when its designated text labels are.
\<close>

definition column_ready :: "frame \<Rightarrow> string \<Rightarrow> bool" where
  "column_ready df c \<longleftrightarrow>
     (c \<in> set (columns df) \<longrightarrow> rows df = [] \<or> list_ex is_str (column df c))"

definition str_ready :: "frame \<Rightarrow> bool" where
  "str_ready df \<longleftrightarrow> list_all (column_ready df) text_cols"






section \<open>Example frames\<close>

text \<open>Two titles that differ by blanks and case only.\<close>

definition ex_case :: frame where
  "ex_case = \<lparr>columns = [label_titulo], rows = [[Str '' zelda ''], [Str ''ZELDA'']]\<rparr>"

definition ex_case_once :: frame where
  "ex_case_once = \<lparr>columns = [label_titulo], rows = [[Str ''ZELDA''], [Str ''ZELDA'']]\<rparr>"


text \<open>A title and a price per row; the price column holds a text that is no number.\<close>

definition ex_shop :: frame where
  "ex_shop = \<lparr>columns = [label_titulo, ''PRECIO'', ''NOTA''],
     rows = [[Str '' zelda '', Str ''19.99'', Str '' ok ''],
             [Str ''Mario'', Str ''abc'', Missing]]\<rparr>"

definition ex_shop_once :: frame where
  "ex_shop_once = \<lparr>columns = [label_titulo, ''PRECIO'', ''NOTA''],
     rows = [[Str ''ZELDA'', Num (1999 / 100), Str '' ok ''],
             [Str ''MARIO'', Missing, Missing]]\<rparr>"



text \<open>A row twice, then a row that differs from it by blanks and case.\<close>

definition ex_dup :: frame where
  "ex_dup = \<lparr>columns = [label_titulo, ''PRECIO''],
     rows = [[Str '' zelda '', Num 1], [Str '' zelda '', Num 1], [Str ''ZELDA'', Num 1]]\<rparr>"

definition ex_dup_once :: frame where
  "ex_dup_once = \<lparr>columns = [label_titulo, ''PRECIO''],
     rows = [[Str ''ZELDA'', Num 1], [Str ''ZELDA'', Num 1]]\<rparr>"



text \<open>
  What \<^verbatim>\<open>read_csv\<close> makes of a file with the header \<^verbatim>\<open>TITULO,ANYO\<close> (accented in the
  file) and the one data line \<^verbatim>\<open>,2019\<close>: the title is missing.
\<close>

definition ex_missing_title :: frame where
  "ex_missing_title = \<lparr>columns = [label_titulo, label_anyo], rows = [[Missing, Num 2019]]\<rparr>"

text \<open>A heap that holds two frames.\<close>

definition ex_heap :: heap where
  "ex_heap = [ex_shop, ex_case]"

text \<open>
  An environment for the loader: the detector answers \<^verbatim>\<open>ascii\<close> (nothing on an empty
  buffer), the codec rejects bytes above 0x7F, the parser rejects a text with a NUL and
  returns an empty frame otherwise, and one file exists.
\<close>

definition ex_decode_ascii :: "string \<Rightarrow> bytes \<Rightarrow> py_exn + pystr" where
  "ex_decode_ascii name raw =
     (if list_all (\<lambda>b. (of_char b :: nat) < 128) raw then Inr (map of_char raw)
      else Inl (UnicodeDecodeError ''invalid start byte''))"

definition ex_read_csv :: "pystr \<Rightarrow> nat \<Rightarrow> py_exn + frame" where
  "ex_read_csv t delimitador =
     (if 0 \<in> set t then Inl (OtherError ''ParserError'')
      else Inr \<lparr>columns = [], rows = []\<rparr>)"

definition ex_env :: env where
  "ex_env = \<lparr>chardet_detect = (\<lambda>raw. if raw = [] then None else Some ''ascii''),
     codec_decode = ex_decode_ascii, read_csv = ex_read_csv,
     file_bytes = (\<lambda>p. if p = ''base_productos.csv'' then Some ''a;b;c,d'' else None),
     locale_encoding = ''utf-8''\<rparr>"

definition ex_raw_latin :: bytes where
  "ex_raw_latin = [CHR 0xFF, CHR ''a'', CHR '','', CHR ''b'']"

definition ex_raw_bad :: bytes where
  "ex_raw_bad = [CHR 0xFF, CHR 0x00]"


section \<open>Deduplication keeps first occurrences\<close>

lemma set_first_seen: "set (first_seen seen rs) = set rs - set seen"
  by (induction rs arbitrary: seen) auto


lemma subseq_first_seen: "subseq (first_seen seen rs) rs"
  by (induction rs arbitrary: seen) auto


lemma first_seen_filter:
  "first_seen seen rs =
     map (\<lambda>i. rs ! i) (filter (\<lambda>i. rs ! i \<notin> set seen \<union> set (take i rs)) [0..<length rs])"
proof (induction rs arbitrary: seen)
  case Nil
  then show ?case by simp
next
  case (Cons r rs)
  have shift: "[0..<length (r # rs)] = 0 # map Suc [0..<length rs]"
    by (simp add: upt_conv_Cons map_Suc_upt del: upt_Suc)
  show ?case
  proof (cases "r \<in> set seen")
    case True
    have "filter (\<lambda>i. rs ! i \<notin> set seen \<and> rs ! i \<noteq> r \<and> rs ! i \<notin> set (take i rs)) [0..<length rs]
        = filter (\<lambda>i. rs ! i \<notin> set seen \<union> set (take i rs)) [0..<length rs]"
      using True by (intro filter_cong) auto
    with True Cons[of seen] show ?thesis
      by (simp only: shift) (simp add: filter_map o_def)
  next
    case False
    have "filter (\<lambda>i. rs ! i \<notin> set seen \<and> rs ! i \<noteq> r \<and> rs ! i \<notin> set (take i rs)) [0..<length rs]
        = filter (\<lambda>i. rs ! i \<notin> set (r # seen) \<union> set (take i rs)) [0..<length rs]"
      by (intro filter_cong) auto
    with False Cons[of "r # seen"] show ?thesis
      by (simp only: shift) (simp add: filter_map o_def)
  qed
qed


section \<open>Trimming and upper-casing are idempotent\<close>

lemma isspace_upper_char: "isspace (upper_char c) = isspace c"
  by (auto simp add: upper_char_def isspace_def)

lemma upper_char_idem: "upper_char (upper_char c) = upper_char c"
  by (auto simp: upper_char_def of_char_of)

lemma upper_idem: "upper (upper s) = upper s"
  by (simp add: upper_def upper_char_idem)

lemma dropWhile_isspace_upper: "dropWhile isspace (upper s) = upper (dropWhile isspace s)"
  by (induction s) (auto simp: upper_def isspace_upper_char)

lemma strip_upper: "strip (upper s) = upper (strip s)"
proof -
  have "rev (upper t) = upper (rev t)" for t by (simp add: upper_def rev_map)
  then show ?thesis
    by (metis dropWhile_isspace_upper strip_def upper_def rev_map)
qed

lemma strip_idem: "strip (strip s) = strip s"
proof -
  define t where "t = dropWhile isspace s"
  define u where "u = rev (dropWhile isspace (rev t))"
  have su: "strip s = u" by (simp add: strip_def t_def u_def)
  have "dropWhile isspace u = u"
  proof (cases u)
    case Nil then show ?thesis by simp
  next
    case (Cons a u')
    have "rev t = takeWhile isspace (rev t) @ rev u"
      by (simp add: u_def)
    then have "t = u @ rev (takeWhile isspace (rev t))"
      by (metis rev_append rev_rev_ident)
    with Cons obtain w where "t = a # w" by auto
    then have "hd t = a" "t \<noteq> []" by simp_all
    moreover have "t \<noteq> [] \<Longrightarrow> \<not> isspace (hd t)"
      unfolding t_def by (simp add: hd_dropWhile)
    ultimately show ?thesis using Cons by simp
  qed
  moreover have "rev (dropWhile isspace (rev u)) = u"
    by (simp add: u_def)
  ultimately show ?thesis by (simp add: su) (simp add: strip_def)
qed

lemma normalize_cell_idem: "normalize_cell (normalize_cell x) = normalize_cell x"
  by (cases x) (simp_all add: normalize_cell_def strip_upper strip_idem upper_idem)

lemma coerce_cell_idem: "coerce_cell (coerce_cell x) = coerce_cell x"
  by (cases x) (simp_all split: option.splits)


section \<open>The loops of \<^verbatim>\<open>clean_data\<close>, cell by cell\<close>

lemma map_labelled_comp:
  "map_labelled F cols (map_labelled G cols r) = map_labelled (\<lambda>c x. F c (G c x)) cols r"
proof -
  have "zip cols (map (\<lambda>(c, x). G c x) (zip cols r)) = map (\<lambda>(c, x). (c, G c x)) (zip cols r)"
    by (induction cols arbitrary: r) (auto split: list.splits simp: zip_Cons1)
  then show ?thesis
    by (simp add: map_labelled_def case_prod_unfold o_def)
qed

lemma map_labelled_id: "length r = length cols \<Longrightarrow> map_labelled (\<lambda>c x. x) cols r = r"
  by (simp add: map_labelled_def case_prod_unfold map_snd_zip)

lemma map_labelled_nth:
  "i < length cols \<Longrightarrow> length r = length cols \<Longrightarrow> map_labelled F cols r ! i = F (cols ! i) (r ! i)"
  by (simp add: map_labelled_def)

lemma row_get_nth:
  "distinct cols \<Longrightarrow> length r = length cols \<Longrightarrow> i < length cols \<Longrightarrow> row_get cols (cols ! i) r = r ! i"
proof -
  assume a: "distinct cols" "length r = length cols" "i < length cols"
  then have "(cols ! i, r ! i) \<in> set (zip cols r)"
    by (metis in_set_zip fst_conv snd_conv)
  moreover have "distinct (map fst (zip cols r))" using a by simp
  ultimately have "map_of (zip cols r) (cols ! i) = Some (r ! i)"
    by (rule map_of_is_SomeI[rotated])
  then show ?thesis by (simp add: row_get_def)
qed

lemma row_set_get:
  assumes "distinct cols" "length r = length cols"
  shows "row_set cols col r (f (row_get cols col r)) = map_labelled (\<lambda>c x. if c = col then f x else x) cols r"
proof -
  have "(if c = col then f (row_get cols col r) else x) = (if c = col then f x else x)"
    if "(c, x) \<in> set (zip cols r)" for c x
  proof (cases "c = col")
    case True
    from that obtain i where "i < length cols" "cols ! i = c" "r ! i = x"
      by (auto simp: in_set_zip)
    with assms True show ?thesis by (auto simp: row_get_nth)
  next
    case False then show ?thesis by simp
  qed
  then show ?thesis
    by (auto simp: row_set_def map_labelled_def intro!: map_cong)
qed

lemma wf_apply_cols: "wf_frame df \<Longrightarrow> wf_frame (apply_cols F df)"
  by (auto simp: wf_frame_def apply_cols_def list_all_iff map_labelled_def)

lemma apply_cols_comp:
  "apply_cols F (apply_cols G df) = apply_cols (\<lambda>c x. F c (G c x)) df"
  by (simp add: apply_cols_def map_labelled_comp o_def)

lemma apply_cols_id: "wf_frame df \<Longrightarrow> apply_cols (\<lambda>c x. x) df = df"
proof -
  assume "wf_frame df"
  then have "map (map_labelled (\<lambda>c x. x) (columns df)) (rows df) = rows df"
    by (auto simp: wf_frame_def list_all_iff map_labelled_id intro!: map_idI)
  then show ?thesis by (simp add: apply_cols_def)
qed

lemma columns_apply_cols: "columns (apply_cols F df) = columns df"
  by (simp add: apply_cols_def)

lemma rows_apply_cols: "rows (apply_cols F df) = map (map_labelled F (columns df)) (rows df)"
  by (simp add: apply_cols_def)

lemma apply_cols_absent:
  assumes "wf_frame df" "col \<notin> set (columns df)"
  shows "apply_cols (\<lambda>c x. if c = col then f x else x) df = df"
proof -
  have "map_labelled (\<lambda>c x. if c = col then f x else x) (columns df) r = map_labelled (\<lambda>c x. x) (columns df) r" for r
    using assms(2) by (auto simp: map_labelled_def dest: set_zip_leftD intro!: map_cong)
  then have "apply_cols (\<lambda>c x. if c = col then f x else x) df = apply_cols (\<lambda>c x. x) df"
    by (simp add: apply_cols_def)
  with assms(1) show ?thesis by (simp add: apply_cols_id)
qed

lemma setitem_getitem:
  assumes "wf_frame df" "col \<in> set (columns df)"
  shows "setitem df col (map f (column df col)) = apply_cols (\<lambda>c x. if c = col then f x else x) df"
proof -
  have "zip (rows df) (map f (column df col)) = map (\<lambda>r. (r, f (row_get (columns df) col r))) (rows df)"
    by (simp add: column_def zip_map2 zip_same_conv_map)
  moreover have "row_set (columns df) col r (f (row_get (columns df) col r))
      = map_labelled (\<lambda>c x. if c = col then f x else x) (columns df) r" if "r \<in> set (rows df)" for r
    using assms(1) that by (intro row_set_get) (auto simp: wf_frame_def list_all_iff)
  ultimately show ?thesis
    using assms(2) by (simp add: setitem_def apply_cols_def o_def)
qed

lemma getitem_column: "col \<in> set (columns df) \<Longrightarrow> getitem df col = Inr (column df col)"
  by (simp add: getitem_def column_def)

lemma coerce_column_eq:
  assumes "wf_frame df"
  shows "coerce_column col df = Inr (apply_cols (\<lambda>c x. if c = col then coerce_cell x else x) df)"
proof (cases "col \<in> set (columns df)")
  case True
  with assms show ?thesis
    by (simp add: coerce_column_def getitem_column to_numeric_def setitem_getitem)
next
  case False
  with assms show ?thesis
    by (simp add: coerce_column_def apply_cols_absent)
qed

lemma for_each_coerce:
  "wf_frame df \<Longrightarrow>
   for_each coerce_column cs df = Inr (apply_cols (\<lambda>c x. if c \<in> set cs then coerce_cell x else x) df)"
proof (induction cs arbitrary: df)
  case Nil
  then show ?case by (simp add: apply_cols_id)
next
  case (Cons a cs)
  have "(\<lambda>c x. if c \<in> set cs then coerce_cell (if c = a then coerce_cell x else x) else (if c = a then coerce_cell x else x))
      = (\<lambda>c x. if c \<in> set (a # cs) then coerce_cell x else x)"
    by (auto simp: fun_eq_iff coerce_cell_idem)
  with Cons show ?case
    by (simp add: coerce_column_eq wf_apply_cols apply_cols_comp)
qed

lemma is_str_str_map: "is_str (str_map f x) = is_str x"
  by (cases x) simp_all

lemma list_ex_is_str_map: "list_ex is_str (map (str_map f) s) = list_ex is_str s"
  by (simp add: list_ex_iff is_str_str_map)

lemma str_strip_upper:
  "(case str_strip s of Inl e \<Rightarrow> Inl e | Inr s1 \<Rightarrow> str_upper s1)
     = (if s = [] \<or> list_ex is_str s then Inr (map normalize_cell s) else Inl AttributeError)"
  by (simp add: str_strip_def str_upper_def str_accessor_def list_ex_is_str_map
      normalize_cell_def o_def)

lemma normalize_column_eq:
  assumes "wf_frame df"
  shows "normalize_column col df =
     (if column_ready df col
      then Inr (apply_cols (\<lambda>c x. if c = col then normalize_cell x else x) df)
      else Inl AttributeError)"
proof (cases "col \<in> set (columns df)")
  case True
  have "normalize_column col df =
      (case (case str_strip (column df col) of Inl e \<Rightarrow> Inl e | Inr s1 \<Rightarrow> str_upper s1) of
         Inl e \<Rightarrow> Inl e | Inr s2 \<Rightarrow> Inr (setitem df col s2))"
    using True by (simp add: normalize_column_def getitem_column split: sum.splits)
  also have "\<dots> = (if column df col = [] \<or> list_ex is_str (column df col)
       then Inr (setitem df col (map normalize_cell (column df col))) else Inl AttributeError)"
    by (simp only: str_strip_upper) simp
  also have "\<dots> = (if column df col = [] \<or> list_ex is_str (column df col)
       then Inr (apply_cols (\<lambda>c x. if c = col then normalize_cell x else x) df)
       else Inl AttributeError)"
    using True assms by (simp only: setitem_getitem)
  also have "column df col = [] \<longleftrightarrow> rows df = []"
    by (simp add: column_def)
  finally show ?thesis
    using True by (simp add: column_ready_def)
next
  case False
  with assms show ?thesis
    by (simp add: normalize_column_def apply_cols_absent column_ready_def)
qed

lemma column_apply_cols:
  assumes "wf_frame df" "c \<in> set (columns df)"
  shows "column (apply_cols F df) c = map (F c) (column df c)"
proof -
  from assms(2) obtain i where i: "i < length (columns df)" "columns df ! i = c"
    by (auto simp: in_set_conv_nth)
  have "row_get (columns df) c (map_labelled F (columns df) r) = F c (row_get (columns df) c r)"
    if "r \<in> set (rows df)" for r
  proof -
    from that assms(1) have len: "length r = length (columns df)" and d: "distinct (columns df)"
      by (auto simp: wf_frame_def list_all_iff)
    have "length (map_labelled F (columns df) r) = length (columns df)"
      using len by (simp add: map_labelled_def)
    with d i len show ?thesis
      using row_get_nth[of "columns df" "map_labelled F (columns df) r" i]
            row_get_nth[of "columns df" r i]
      by (simp add: map_labelled_nth)
  qed
  then show ?thesis
    by (simp add: column_def apply_cols_def)
qed

lemma column_ready_apply_cols:
  assumes "wf_frame df" "\<And>x. is_str (F c x) = is_str x"
  shows "column_ready (apply_cols F df) c = column_ready df c"
  using assms
  by (auto simp: column_ready_def column_apply_cols list_ex_iff columns_apply_cols rows_apply_cols)

lemma is_str_normalize_cell: "is_str (normalize_cell x) = is_str x"
  by (simp add: normalize_cell_def is_str_str_map)

lemma for_each_normalize:
  "wf_frame df \<Longrightarrow>
   for_each normalize_column cs df =
     (if list_all (column_ready df) cs
      then Inr (apply_cols (\<lambda>c x. if c \<in> set cs then normalize_cell x else x) df)
      else Inl AttributeError)"
proof (induction cs arbitrary: df)
  case Nil
  then show ?case by (simp add: apply_cols_id)
next
  case (Cons a cs)
  let ?df1 = "apply_cols (\<lambda>c x. if c = a then normalize_cell x else x) df"
  have eq: "(\<lambda>c x. if c \<in> set cs then normalize_cell (if c = a then normalize_cell x else x)
                   else (if c = a then normalize_cell x else x))
      = (\<lambda>c x. if c \<in> set (a # cs) then normalize_cell x else x)"
    by (auto simp: fun_eq_iff normalize_cell_idem)
  have ready: "column_ready ?df1 c = column_ready df c" for c
    using Cons.prems by (intro column_ready_apply_cols) (auto simp: is_str_normalize_cell)
  show ?case
  proof (cases "column_ready df a")
    case True
    with Cons.prems Cons.IH[of ?df1] show ?thesis
      by (simp add: normalize_column_eq wf_apply_cols apply_cols_comp eq ready)
  next
    case False
    with Cons.prems show ?thesis by (simp add: normalize_column_eq)
  qed
qed

lemmas label_defs = label_anyo_def label_puntuacion_def label_titulo_def label_genero_def

lemma text_not_numeric: "c \<in> set text_cols \<Longrightarrow> c \<notin> set numeric_cols"
  by (auto simp: text_cols_def numeric_cols_def label_defs)

lemma wf_drop_duplicates: "wf_frame df \<Longrightarrow> wf_frame (drop_duplicates df)"
  by (auto simp: wf_frame_def drop_duplicates_def list_all_iff set_first_seen)

lemma first_seen_Nil_iff: "first_seen [] rs = [] \<longleftrightarrow> rs = []"
  by (cases rs) simp_all

lemma column_ready_drop_duplicates: "column_ready (drop_duplicates df) c = column_ready df c"
  by (simp add: column_ready_def drop_duplicates_def column_def list_ex_iff set_first_seen
      first_seen_Nil_iff)

lemma clean_cell_comp:
  "(\<lambda>c x. if c \<in> set text_cols
           then normalize_cell (if c \<in> set numeric_cols then coerce_cell x else x)
           else (if c \<in> set numeric_cols then coerce_cell x else x)) = clean_cell"
  by (auto simp: fun_eq_iff clean_cell_def text_not_numeric)

lemma clean_data_eq:
  assumes "wf_frame df"
  shows "clean_data df =
     (if str_ready df then Inr (apply_cols clean_cell (drop_duplicates df))
      else Inl AttributeError)"
proof -
  let ?d = "drop_duplicates df"
  let ?n = "apply_cols (\<lambda>c x. if c \<in> set numeric_cols then coerce_cell x else x) ?d"
  have wd: "wf_frame ?d" using assms by (rule wf_drop_duplicates)
  have wn: "wf_frame ?n" using wd by (rule wf_apply_cols)
  have "column_ready ?n c = column_ready df c" if "c \<in> set text_cols" for c
  proof -
    have "column_ready ?n c = column_ready ?d c"
      using wd that by (intro column_ready_apply_cols) (auto simp: text_not_numeric)
    then show ?thesis by (simp add: column_ready_drop_duplicates)
  qed
  then have ready: "list_all (column_ready ?n) text_cols = str_ready df"
    by (simp add: str_ready_def list_all_iff)
  have "clean_data df = for_each normalize_column text_cols ?n"
    using wd by (simp add: clean_data_def for_each_coerce)
  also have "\<dots> = (if str_ready df
       then Inr (apply_cols (\<lambda>c x. if c \<in> set text_cols then normalize_cell x else x) ?n)
       else Inl AttributeError)"
    using wn by (simp add: for_each_normalize ready)
  finally show ?thesis
    by (simp add: apply_cols_comp clean_cell_comp)
qed


section \<open>Evaluating the definitions on concrete frames\<close>

lemmas to_double_eval = to_double_def isspace_ascii_def isdigit_ascii_def digits_val_def
  skip_sign_def decimal_part_def exponent_part_def scale10_def

lemmas source_eval = clean_data_def drop_duplicates_def numeric_cols_def text_cols_def label_defs
  coerce_column_def normalize_column_def getitem_def setitem_def row_get_def row_set_def
  to_numeric_def str_strip_def str_upper_def str_accessor_def

lemma upper_strip_zelda: "upper (strip '' zelda '') = ''ZELDA''"
  by code_simp

lemma upper_strip_ZELDA: "upper (strip ''ZELDA'') = ''ZELDA''"
  by code_simp

lemma upper_strip_Mario: "upper (strip ''Mario'') = ''MARIO''"
  by code_simp

lemma upper_strip_MARIO: "upper (strip ''MARIO'') = ''MARIO''"
  by code_simp

lemma clean_ex_case: "clean_data ex_case = Inr ex_case_once"
  by (simp add: ex_case_def ex_case_once_def source_eval upper_strip_zelda upper_strip_ZELDA)


lemma clean_ex_shop: "clean_data ex_shop = Inr ex_shop_once"
  by (simp add: ex_shop_def ex_shop_once_def source_eval to_double_eval
      upper_strip_zelda upper_strip_Mario)

lemma wf_ex_case: "wf_frame ex_case"
  by (simp add: wf_frame_def ex_case_def)

lemma wf_ex_shop: "wf_frame ex_shop"
  by (simp add: wf_frame_def ex_shop_def label_defs)




lemma clean_ex_dup: "clean_data ex_dup = Inr ex_dup_once"
  by (simp add: ex_dup_def ex_dup_once_def source_eval upper_strip_zelda upper_strip_ZELDA)

lemma wf_ex_dup: "wf_frame ex_dup"
  by (simp add: wf_frame_def ex_dup_def label_defs)



lemma wf_ex_missing_title: "wf_frame ex_missing_title"
  by (simp add: wf_frame_def ex_missing_title_def label_defs)


section \<open>Running the pipeline on its own output\<close>


lemma clean_data_Inr:
  assumes "wf_frame df" "clean_data df = Inr df'"
  shows "str_ready df" "df' = apply_cols clean_cell (drop_duplicates df)"
  using assms by (simp_all add: clean_data_eq split: if_splits)








section \<open>What a run that returns has made of the frame\<close>



lemma column_clean:
  assumes "wf_frame df" "clean_data df = Inr df'" "c \<in> set (columns df)"
  shows "column df' c = map (clean_cell c) (column (drop_duplicates df) c)"
proof -
  from assms(1,2) have "df' = apply_cols clean_cell (drop_duplicates df)"
    by (rule clean_data_Inr)
  moreover have "c \<in> set (columns (drop_duplicates df))"
    using assms(3) by (simp add: drop_duplicates_def)
  ultimately show ?thesis
    using assms(1) by (simp add: column_apply_cols wf_drop_duplicates)
qed

lemma columns_clean:
  assumes "wf_frame df" "clean_data df = Inr df'"
  shows "columns df' = columns df"
  using clean_data_Inr(2)[OF assms] by (simp add: apply_cols_def drop_duplicates_def)

lemma rows_clean:
  assumes "wf_frame df" "clean_data df = Inr df'"
  shows "rows df' = map (clean_row (columns df)) (first_seen [] (rows df))"
  using clean_data_Inr(2)[OF assms]
  by (simp add: apply_cols_def drop_duplicates_def clean_row_def)





section \<open>Deduplication runs on the raw rows\<close>

text \<open>
  Claim C3: the rows of a returned table are the cleaned images of the raw rows that are
  no copy of an earlier raw row, in their order. In particular rows \<open>[A, A, B]\<close> give the
  images of \<open>A\<close> and \<open>B\<close>, and two raw rows that differ, be it by blanks, case or the
  spelling of a number only, both survive.
\<close>

theorem dedup_raw_first_occurrence:
  assumes "wf_frame df" and "clean_data df = Inr df'"
  shows "rows df' = map (clean_row (columns df)) (first_seen [] (rows df))
       \<and> first_seen [] (rows df) =
           map (\<lambda>i. rows df ! i)
             (filter (\<lambda>i. rows df ! i \<notin> set (take i (rows df))) [0..<length (rows df)])
       \<and> (\<forall>A B. rows df = [A, A, B] \<and> A \<noteq> B \<longrightarrow>
             rows df' = [clean_row (columns df) A, clean_row (columns df) B])
       \<and> (\<forall>A B. rows df = [A, B] \<and> A \<noteq> B \<longrightarrow>
             rows df' = [clean_row (columns df) A, clean_row (columns df) B])"
proof -
  have r: "rows df' = map (clean_row (columns df)) (first_seen [] (rows df))"
    using assms by (rule rows_clean)
  have f: "first_seen [] (rows df) =
      map (\<lambda>i. rows df ! i)
        (filter (\<lambda>i. rows df ! i \<notin> set (take i (rows df))) [0..<length (rows df)])"
    using first_seen_filter[of "[]" "rows df"] by simp
  have a: "rows df' = [clean_row (columns df) A, clean_row (columns df) B]"
    if "rows df = [A, A, B] \<and> A \<noteq> B" for A B
    using that r by auto
  have b: "rows df' = [clean_row (columns df) A, clean_row (columns df) B]"
    if "rows df = [A, B] \<and> A \<noteq> B" for A B
    using that r by auto
  from r f a b show ?thesis by blast
qed

theorem dedup_raw_first_occurrence_witness:
  "wf_frame ex_dup \<and> clean_data ex_dup = Inr ex_dup_once
   \<and> rows ex_dup = [[Str '' zelda '', Num 1], [Str '' zelda '', Num 1], [Str ''ZELDA'', Num 1]]
   \<and> rows ex_dup_once =
       [clean_row (columns ex_dup) [Str '' zelda '', Num 1],
        clean_row (columns ex_dup) [Str ''ZELDA'', Num 1]]
   \<and> wf_frame ex_case \<and> clean_data ex_case = Inr ex_case_once
   \<and> rows ex_case = [[Str '' zelda ''], [Str ''ZELDA'']]
   \<and> rows ex_case_once =
       [clean_row (columns ex_case) [Str '' zelda ''], clean_row (columns ex_case) [Str ''ZELDA'']]"
proof -
  have r1: "rows ex_dup = [[Str '' zelda '', Num 1], [Str '' zelda '', Num 1], [Str ''ZELDA'', Num 1]]"
    by (simp add: ex_dup_def)
  have r2: "rows ex_case = [[Str '' zelda ''], [Str ''ZELDA'']]"
    by (simp add: ex_case_def)
  have n1: "[Str '' zelda '', Num 1] \<noteq> [Str ''ZELDA'', Num 1]"
    by simp
  have n2: "[Str '' zelda ''] \<noteq> [Str ''ZELDA'']"
    by simp
  from dedup_raw_first_occurrence[OF wf_ex_dup clean_ex_dup] r1 n1
  have a: "rows ex_dup_once =
       [clean_row (columns ex_dup) [Str '' zelda '', Num 1],
        clean_row (columns ex_dup) [Str ''ZELDA'', Num 1]]"
    by blast
  from dedup_raw_first_occurrence[OF wf_ex_case clean_ex_case] r2 n2
  have b: "rows ex_case_once =
       [clean_row (columns ex_case) [Str '' zelda ''], clean_row (columns ex_case) [Str ''ZELDA'']]"
    by blast
  from a b r1 r2 wf_ex_dup clean_ex_dup wf_ex_case clean_ex_case show ?thesis
    by blast
qed


section \<open>Numeric coercion\<close>







section \<open>Text normalization\<close>

text \<open>
  Claim C7 says that every designated text column that is present is normalized, missing
  values passing through. On a frame whose title column holds no text (here its one cell
  is missing) the \<^verbatim>\<open>.str\<close> accessor raises and \<^verbatim>\<open>clean_data\<close> returns nothing.
\<close>

theorem normalize_without_text_raises:
  "wf_frame ex_missing_title \<and> clean_data ex_missing_title = Inl AttributeError"
  by (simp add: wf_ex_missing_title) (simp add: ex_missing_title_def source_eval)

lemma clean_data_raises_iff:
  "wf_frame df \<Longrightarrow> clean_data df = Inl e \<longleftrightarrow> e = AttributeError \<and> \<not> str_ready df"
  by (auto simp: clean_data_eq)

lemma normalize_present_text_column:
  assumes "wf_frame df" "clean_data df = Inr df'" "c \<in> set text_cols" "c \<in> set (columns df)"
  shows "column df' c = map normalize_cell (column (drop_duplicates df) c)"
  using column_clean[OF assms(1,2,4)] assms(3)
  by (simp add: clean_cell_def text_not_numeric cong: map_cong)

lemma normalize_cell_cases:
  "normalize_cell (Str s) = Str (upper (strip s))" "normalize_cell Missing = Missing"
  by (simp_all add: normalize_cell_def)


section \<open>The other columns\<close>

text \<open>
  Claim C9: a table that the pipeline returns has the labels of the input, in the same
  order, and under every label that is designated neither numeric nor text each
  surviving row keeps the cell it had.
\<close>

theorem other_columns_untouched:
  assumes "wf_frame df" and "clean_data df = Inr df'"
  shows "columns df' = columns df
       \<and> length (rows df') = length (first_seen [] (rows df))
       \<and> (\<forall>j i. j < length (rows df') \<and> i < length (columns df)
             \<and> columns df ! i \<notin> set numeric_cols \<and> columns df ! i \<notin> set text_cols \<longrightarrow>
           rows df' ! j ! i = first_seen [] (rows df) ! j ! i)
       \<and> (\<forall>c. c \<in> set (columns df) \<and> c \<notin> set numeric_cols \<and> c \<notin> set text_cols \<longrightarrow>
           column df' c = column (drop_duplicates df) c)"
proof -
  let ?rs = "first_seen [] (rows df)"
  have cols: "columns df' = columns df"
    using assms by (rule columns_clean)
  have rws: "rows df' = map (clean_row (columns df)) ?rs"
    using assms by (rule rows_clean)
  then have len: "length (rows df') = length ?rs"
    by simp
  have cell: "rows df' ! j ! i = ?rs ! j ! i"
    if h: "j < length (rows df') \<and> i < length (columns df)
      \<and> columns df ! i \<notin> set numeric_cols \<and> columns df ! i \<notin> set text_cols" for j i
  proof -
    from h len have j: "j < length ?rs" by simp
    then have "?rs ! j \<in> set (rows df)"
      using set_first_seen[of "[]" "rows df"] nth_mem[OF j] by simp
    with assms(1) have l: "length (?rs ! j) = length (columns df)"
      by (simp add: wf_frame_def list_all_iff)
    from j rws have "rows df' ! j = map_labelled clean_cell (columns df) (?rs ! j)"
      by (simp add: clean_row_def)
    with h l show ?thesis
      by (simp add: map_labelled_nth clean_cell_def)
  qed
  have col: "column df' c = column (drop_duplicates df) c"
    if h: "c \<in> set (columns df) \<and> c \<notin> set numeric_cols \<and> c \<notin> set text_cols" for c
  proof -
    from h have "clean_cell c = (\<lambda>x. x)"
      by (simp add: clean_cell_def fun_eq_iff)
    with h show ?thesis
      by (simp add: column_clean[OF assms])
  qed
  from cols len cell col show ?thesis by blast
qed

theorem other_columns_untouched_witness:
  "wf_frame ex_shop \<and> clean_data ex_shop = Inr ex_shop_once
   \<and> columns ex_shop_once = columns ex_shop
   \<and> ''NOTA'' \<in> set (columns ex_shop) \<and> ''NOTA'' \<notin> set numeric_cols \<and> ''NOTA'' \<notin> set text_cols
   \<and> column ex_shop_once ''NOTA'' = column (drop_duplicates ex_shop) ''NOTA''
   \<and> column ex_shop_once ''NOTA'' = [Str '' ok '', Missing]"
proof -
  have n: "''NOTA'' \<in> set (columns ex_shop)" "''NOTA'' \<notin> set numeric_cols"
      "''NOTA'' \<notin> set text_cols"
    by (simp_all add: ex_shop_def numeric_cols_def text_cols_def label_defs)
  have v: "column ex_shop_once ''NOTA'' = [Str '' ok '', Missing]"
    by (simp add: column_def ex_shop_once_def row_get_def label_defs)
  from other_columns_untouched[OF wf_ex_shop clean_ex_shop] n
  have "columns ex_shop_once = columns ex_shop
      \<and> column ex_shop_once ''NOTA'' = column (drop_duplicates ex_shop) ''NOTA''"
    by blast
  with wf_ex_shop clean_ex_shop n v show ?thesis by blast
qed


section \<open>The input frame is not written\<close>

lemma only_at_refl: "only_at d h h"
  by (simp add: only_at_def)

lemma only_at_trans: "only_at d h h' \<Longrightarrow> only_at d h' h'' \<Longrightarrow> only_at d h h''"
  by (simp add: only_at_def)

lemma only_at_update: "only_at d h (h[d := x])"
  by (simp add: only_at_def)

lemma runs_coerce_column: "runs d (coerce_column col) (coerce_column_h d col)"
  by (auto simp: runs_def coerce_column_def coerce_column_h_def only_at_refl only_at_update
      setitem_h_def split: sum.splits)

lemma runs_normalize_column: "runs d (normalize_column col) (normalize_column_h d col)"
  by (auto simp: runs_def normalize_column_def normalize_column_h_def only_at_refl
      only_at_update setitem_h_def split: sum.splits)

lemma runs_for_each:
  assumes "\<And>x. runs d (f x) (g x)"
  shows "runs d (for_each f xs) (for_each_h g xs)"
proof -
  have "only_at d h (snd (for_each_h g xs h)) \<and>
        (case fst (for_each_h g xs h) of
           Some e \<Rightarrow> for_each f xs (h ! d) = Inl e
         | None \<Rightarrow> for_each f xs (h ! d) = Inr (snd (for_each_h g xs h) ! d))"
    if "d < length h" for h
    using that
  proof (induction xs arbitrary: h)
    case Nil
    then show ?case by (simp add: only_at_refl)
  next
    case (Cons x xs)
    obtain r h' where g: "g x h = (r, h')" by (cases "g x h")
    from assms[of x] Cons.prems have "only_at d h (snd (g x h)) \<and>
        (case fst (g x h) of
           Some e \<Rightarrow> f x (h ! d) = Inl e
         | None \<Rightarrow> f x (h ! d) = Inr (snd (g x h) ! d))"
      unfolding runs_def by blast
    with g have o: "only_at d h h'"
      and c: "case r of Some e \<Rightarrow> f x (h ! d) = Inl e | None \<Rightarrow> f x (h ! d) = Inr (h' ! d)"
      by (auto split: option.splits)
    show ?case
    proof (cases r)
      case None
      from o Cons.prems have "d < length h'" by (simp add: only_at_def)
      from Cons.IH[OF this] o c None g show ?thesis
        by (auto intro: only_at_trans split: option.splits)
    next
      case (Some e)
      with o c g show ?thesis by (auto split: option.splits)
    qed
  qed
  then show ?thesis by (simp add: runs_def)
qed

lemma only_at_fresh:
  assumes "only_at (length h) (h @ [x]) h'"
  shows "take (length h) h' = h"
proof (rule nth_equalityI)
  from assms show "length (take (length h) h') = length h"
    by (simp add: only_at_def)
next
  fix i assume "i < length (take (length h) h')"
  with assms show "take (length h) h' ! i = h ! i"
    by (simp add: only_at_def nth_append)
qed

lemma clean_data_h_runs:
  "only_at (length h0) (h0 @ [drop_duplicates (h0 ! df0)]) (snd (clean_data_h h0 df0))
   \<and> (case fst (clean_data_h h0 df0) of
        Inl e \<Rightarrow> clean_data (h0 ! df0) = Inl e
      | Inr df \<Rightarrow> df = length h0
          \<and> clean_data (h0 ! df0) = Inr (snd (clean_data_h h0 df0) ! df))"
proof -
  let ?d = "length h0"
  let ?h1 = "h0 @ [drop_duplicates (h0 ! df0)]"
  have d1: "?d < length ?h1" by simp
  have at1: "?h1 ! ?d = drop_duplicates (h0 ! df0)" by simp
  obtain r2 h2 where l1: "for_each_h (coerce_column_h ?d) numeric_cols ?h1 = (r2, h2)"
    by (cases "for_each_h (coerce_column_h ?d) numeric_cols ?h1")
  have "runs ?d (for_each coerce_column numeric_cols) (for_each_h (coerce_column_h ?d) numeric_cols)"
    by (intro runs_for_each runs_coerce_column)
  with d1 l1 have o2: "only_at ?d ?h1 h2"
    and c2: "case r2 of Some e \<Rightarrow> for_each coerce_column numeric_cols (?h1 ! ?d) = Inl e
       | None \<Rightarrow> for_each coerce_column numeric_cols (?h1 ! ?d) = Inr (h2 ! ?d)"
    unfolding runs_def by (fastforce split: option.splits)+
  from o2 have d2: "?d < length h2" by (simp add: only_at_def)
  obtain r3 h3 where l2: "for_each_h (normalize_column_h ?d) text_cols h2 = (r3, h3)"
    by (cases "for_each_h (normalize_column_h ?d) text_cols h2")
  have "runs ?d (for_each normalize_column text_cols) (for_each_h (normalize_column_h ?d) text_cols)"
    by (intro runs_for_each runs_normalize_column)
  with d2 l2 have o3: "only_at ?d h2 h3"
    and c3: "case r3 of Some e \<Rightarrow> for_each normalize_column text_cols (h2 ! ?d) = Inl e
       | None \<Rightarrow> for_each normalize_column text_cols (h2 ! ?d) = Inr (h3 ! ?d)"
    unfolding runs_def by (fastforce split: option.splits)+
  show ?thesis
  proof (cases r2)
    case (Some e)
    with l1 o2 c2 show ?thesis
      by (simp add: clean_data_h_def drop_duplicates_h_def clean_data_def at1)
  next
    case None
    note n2 = this
    show ?thesis
    proof (cases r3)
      case (Some e)
      with n2 l1 l2 o2 o3 c2 c3 show ?thesis
        by (simp add: clean_data_h_def drop_duplicates_h_def clean_data_def at1)
           (rule only_at_trans)
    next
      case None
      with n2 l1 l2 o2 o3 c2 c3 show ?thesis
        by (simp add: clean_data_h_def drop_duplicates_h_def clean_data_def at1)
           (rule only_at_trans)
    qed
  qed
qed

lemmas heap_eval = clean_data_h_def drop_duplicates_h_def coerce_column_h_def
  normalize_column_h_def setitem_h_def

lemma clean_ex_heap: "clean_data_h ex_heap 0 = (Inr 2, [ex_shop, ex_case, ex_shop_once])"
  by (simp add: ex_heap_def heap_eval ex_shop_def ex_shop_once_def source_eval to_double_eval
      upper_strip_zelda upper_strip_Mario)

text \<open>
  Claim C10: \<^verbatim>\<open>clean_data\<close> leaves every frame that was on the heap before the call as it
  was, the input among them, whether it returns or raises; the frame it returns is a new
  one, and holds what the function on frames computes from the input.
\<close>

theorem clean_data_keeps_input:
  assumes "df0 < length h0"
  shows "take (length h0) (snd (clean_data_h h0 df0)) = h0
       \<and> snd (clean_data_h h0 df0) ! df0 = h0 ! df0
       \<and> (case fst (clean_data_h h0 df0) of
            Inl e \<Rightarrow> clean_data (h0 ! df0) = Inl e
          | Inr df \<Rightarrow> df \<noteq> df0
              \<and> clean_data (h0 ! df0) = Inr (snd (clean_data_h h0 df0) ! df))"
proof -
  note r = clean_data_h_runs[of h0 df0]
  from r have "only_at (length h0) (h0 @ [drop_duplicates (h0 ! df0)]) (snd (clean_data_h h0 df0))"
    by blast
  then have t: "take (length h0) (snd (clean_data_h h0 df0)) = h0"
    by (rule only_at_fresh)
  have "snd (clean_data_h h0 df0) ! df0 = take (length h0) (snd (clean_data_h h0 df0)) ! df0"
    using assms by simp
  with t have k: "snd (clean_data_h h0 df0) ! df0 = h0 ! df0"
    by simp
  from r assms have "case fst (clean_data_h h0 df0) of
            Inl e \<Rightarrow> clean_data (h0 ! df0) = Inl e
          | Inr df \<Rightarrow> df \<noteq> df0
              \<and> clean_data (h0 ! df0) = Inr (snd (clean_data_h h0 df0) ! df)"
    by (auto split: sum.splits)
  with t k show ?thesis by blast
qed

theorem clean_data_keeps_input_witness:
  "(0::nat) < length ex_heap
   \<and> clean_data_h ex_heap 0 = (Inr 2, [ex_shop, ex_case, ex_shop_once])
   \<and> snd (clean_data_h ex_heap 0) ! 0 = ex_heap ! 0
   \<and> take (length ex_heap) (snd (clean_data_h ex_heap 0)) = ex_heap"
proof -
  have l: "(0::nat) < length ex_heap" by (simp add: ex_heap_def)
  from clean_data_keeps_input[OF l] l clean_ex_heap show ?thesis by blast
qed


section \<open>The loader\<close>



lemma load_no_decode_error:
  assumes "\<forall>m. fst (first_attempt env raw) \<noteq> Inl (UnicodeDecodeError m)"
  shows "snd (load_uploaded_file env raw) = snd (first_attempt env raw)"
    and "fst (load_uploaded_file env raw) = map_sum id Some (fst (first_attempt env raw))"
  using assms
  by (auto simp: load_uploaded_file_def split: prod.splits sum.splits py_exn.splits)

lemma load_decode_error:
  assumes "fst (first_attempt env raw) = Inl (UnicodeDecodeError m)"
  shows "snd (load_uploaded_file env raw)
           = snd (first_attempt env raw) @ snd (fallback_latin1 env raw)"
    and "fst (load_uploaded_file env raw) = fst (fallback_latin1 env raw)"
  using assms
  by (auto simp: load_uploaded_file_def split: prod.splits sum.splits py_exn.splits)

lemma first_attempt_events:
  "snd (first_attempt env raw) = [Decode (chardet_detect env raw)]
   \<or> (\<exists>t. bytes_decode env (chardet_detect env raw) raw = Inr t
        \<and> snd (first_attempt env raw)
            = [Decode (chardet_detect env raw), Read_csv t (delimitador_de (readline t))])"
  by (auto simp: first_attempt_def read_text_def Let_def split: sum.splits)

lemma fallback_result:
  "fallback_latin1 env raw =
     (case read_csv env (latin1_decode raw) (delimitador_de (readline (latin1_decode raw))) of
        Inr df \<Rightarrow>
          (Inr (Some df),
           [Decode_latin1,
            Read_csv (latin1_decode raw) (delimitador_de (readline (latin1_decode raw)))])
      | Inl e \<Rightarrow>
          (Inr None,
           [Decode_latin1,
            Read_csv (latin1_decode raw) (delimitador_de (readline (latin1_decode raw))),
            St_error (''No se pudo decodificar el archivo: '' @ str_of_exn e)]))"
  by (simp add: fallback_latin1_def read_text_def Let_def split: sum.splits)

lemmas ex_env_eval = ex_env_def ex_decode_ascii_def ex_read_csv_def bytes_decode_def
  latin1_decode_def delimitador_de_def comma_def semicolon_def

lemma first_attempt_ex_raw_bad:
  "fst (first_attempt ex_env ex_raw_bad) = Inl (UnicodeDecodeError ''invalid start byte'')"
  by (simp add: first_attempt_def ex_raw_bad_def ex_env_eval)

lemma read_text_ex_raw_bad:
  "fst (read_text ex_env (latin1_decode ex_raw_bad)) = Inl (OtherError ''ParserError'')"
  by (simp add: read_text_def ex_raw_bad_def ex_env_eval)

lemma first_attempt_ex_raw_latin:
  "fst (first_attempt ex_env ex_raw_latin) = Inl (UnicodeDecodeError ''invalid start byte'')"
  by (simp add: first_attempt_def ex_raw_latin_def ex_env_eval)

lemma read_text_ex_raw_latin:
  "fst (read_text ex_env (latin1_decode ex_raw_latin)) = Inr \<lparr>columns = [], rows = []\<rparr>"
  by (simp add: read_text_def ex_raw_latin_def ex_env_eval)






text \<open>
  Claim C6: \<^verbatim>\<open>load_uploaded_file\<close> decodes at most twice and falls back to Latin-1 at most
  once, exactly when the first attempt raised \<^verbatim>\<open>UnicodeDecodeError\<close>. When the fallback
  parses, its frame is returned; when it raises, the function returns \<^verbatim>\<open>None\<close> and the
  last thing it does is to show the message that carries the exception. An exception
  leaves the function only if it is no decode error, and then no fallback was tried.
\<close>

theorem load_uploaded_file_single_fallback:
  "length (filter is_decode (snd (load_uploaded_file env raw))) \<le> 2
   \<and> length (filter is_fallback (snd (load_uploaded_file env raw))) \<le> 1
   \<and> (Decode_latin1 \<in> set (snd (load_uploaded_file env raw))
        \<longleftrightarrow> (\<exists>m. fst (first_attempt env raw) = Inl (UnicodeDecodeError m)))
   \<and> (\<forall>m df. fst (first_attempt env raw) = Inl (UnicodeDecodeError m)
          \<and> fst (read_text env (latin1_decode raw)) = Inr df \<longrightarrow>
        fst (load_uploaded_file env raw) = Inr (Some df))
   \<and> (\<forall>m e. fst (first_attempt env raw) = Inl (UnicodeDecodeError m)
          \<and> fst (read_text env (latin1_decode raw)) = Inl e \<longrightarrow>
        fst (load_uploaded_file env raw) = Inr None
        \<and> last (snd (load_uploaded_file env raw))
            = St_error (''No se pudo decodificar el archivo: '' @ str_of_exn e))
   \<and> (\<forall>e. fst (load_uploaded_file env raw) = Inl e \<longrightarrow>
        fst (first_attempt env raw) = Inl e \<and> (\<forall>m. e \<noteq> UnicodeDecodeError m)
        \<and> Decode_latin1 \<notin> set (snd (load_uploaded_file env raw)))"
proof (cases "\<exists>m. fst (first_attempt env raw) = Inl (UnicodeDecodeError m)")
  case True
  then obtain m where m: "fst (first_attempt env raw) = Inl (UnicodeDecodeError m)" by blast
  note l = load_decode_error[OF m]
  from m have fa: "snd (first_attempt env raw) = [Decode (chardet_detect env raw)]
      \<or> (\<exists>t. snd (first_attempt env raw)
            = [Decode (chardet_detect env raw), Read_csv t (delimitador_de (readline t))])"
    using first_attempt_events[of env raw] by blast
  show ?thesis
    using fa m
    by (auto simp: l fallback_result read_text_def Let_def is_fallback_def split: sum.splits)
next
  case False
  then have n: "\<forall>m. fst (first_attempt env raw) \<noteq> Inl (UnicodeDecodeError m)" by blast
  note l = load_no_decode_error[OF n]
  show ?thesis
    using first_attempt_events[of env raw] n
    by (auto simp: l is_fallback_def map_sum_def split: sum.splits)
qed

theorem load_uploaded_file_single_fallback_witness:
  "fst (first_attempt ex_env ex_raw_latin) = Inl (UnicodeDecodeError ''invalid start byte'')
   \<and> fst (read_text ex_env (latin1_decode ex_raw_latin)) = Inr \<lparr>columns = [], rows = []\<rparr>
   \<and> fst (load_uploaded_file ex_env ex_raw_latin) = Inr (Some \<lparr>columns = [], rows = []\<rparr>)
   \<and> Decode_latin1 \<in> set (snd (load_uploaded_file ex_env ex_raw_latin))
   \<and> fst (first_attempt ex_env ex_raw_bad) = Inl (UnicodeDecodeError ''invalid start byte'')
   \<and> fst (read_text ex_env (latin1_decode ex_raw_bad)) = Inl (OtherError ''ParserError'')
   \<and> fst (load_uploaded_file ex_env ex_raw_bad) = Inr None
   \<and> last (snd (load_uploaded_file ex_env ex_raw_bad))
       = St_error (''No se pudo decodificar el archivo: '' @ ''ParserError'')"
proof -
  from load_uploaded_file_single_fallback[of ex_env ex_raw_latin]
    first_attempt_ex_raw_latin read_text_ex_raw_latin
  have a: "fst (load_uploaded_file ex_env ex_raw_latin) = Inr (Some \<lparr>columns = [], rows = []\<rparr>)
      \<and> Decode_latin1 \<in> set (snd (load_uploaded_file ex_env ex_raw_latin))"
    by blast
  from load_uploaded_file_single_fallback[of ex_env ex_raw_bad]
    first_attempt_ex_raw_bad read_text_ex_raw_bad
  have "fst (load_uploaded_file ex_env ex_raw_bad) = Inr None
      \<and> last (snd (load_uploaded_file ex_env ex_raw_bad))
          = St_error (''No se pudo decodificar el archivo: '' @ str_of_exn (OtherError ''ParserError''))"
    by blast
  then have b: "fst (load_uploaded_file ex_env ex_raw_bad) = Inr None
      \<and> last (snd (load_uploaded_file ex_env ex_raw_bad))
          = St_error (''No se pudo decodificar el archivo: '' @ ''ParserError'')"
    by simp
  from a b first_attempt_ex_raw_latin read_text_ex_raw_latin first_attempt_ex_raw_bad
    read_text_ex_raw_bad
  show ?thesis by blast
qed

end
